theory Spec2Isabelle
  imports Main "HOL-Library.AList"
begin

section \<open>Data model\<close>

text \<open>
  The view talks to its host (an editor extension) over a message channel, keeps a
  persisted view state, and turns the host's \<open>setContents\<close> / \<open>appendContents\<close> requests
  into calls on a tree builder.  The module-level variables of \<open>vscodeComm.ts\<close> and of the
  ingestion module become the fields of one record, \<open>world\<close>, that every operation takes
  and returns.
\<close>

subsection \<open>Values and messages\<close>

text \<open>
  A value of TypeScript type \<open>any\<close>, as far as this layer looks into it: \<open>undefined\<close>,
  a string, or an object given by its own properties.
\<close>

datatype any = Undefined | Str string | Obj "(string \<times> any) list"

text \<open>
  \<open>IRequestMessage\<close>: \<open>type\<close> is the constant \<open>'request'\<close>, so it is not a field here;
  \<open>props\<close> holds whatever command-specific properties the object carries besides
  \<open>seq\<close> and \<open>command\<close>.  A JavaScript number that holds a sequence number is an
  \<open>int\<close>; what \<open>+ 1\<close> does to such a number is \<open>numberPlusOne\<close> below.
\<close>

record IRequestMessage =
  seq :: int
  command :: string
  props :: "(string \<times> any) list"

record IResponseMessage =
  resp_seq :: int
  resp_command :: string
  request_seq :: int
  body :: any

record IEventMessage =
  ev_seq :: int
  event :: string
  data :: any

record ISetContentsRequest =
  sc_initialContents :: string
  sc_runId :: "string option"
  sc_allRunIdsToLabel :: "(string \<times> string) list option"

record IAppendContentsRequest =
  ac_appendContents :: string
  ac_runId :: string

record IUpdateLabelRequest =
  ul_runId :: string
  ul_label :: string

text \<open>
  An inbound request, by its \<open>command\<close>.  \<open>UnknownCommand c\<close> is a request whose command
  is none of the three that have an interface of their own.
\<close>

datatype request =
    SetContentsRequest ISetContentsRequest
  | AppendContentsRequest IAppendContentsRequest
  | UpdateLabelRequest IUpdateLabelRequest
  | UnknownCommand string

fun command_of :: "request \<Rightarrow> string" where
  "command_of (SetContentsRequest _) = ''setContents''"
| "command_of (AppendContentsRequest _) = ''appendContents''"
| "command_of (UpdateLabelRequest _) = ''updateLabel''"
| "command_of (UnknownCommand c) = c"

text \<open>
  What \<open>event.data\<close> of a \<open>message\<close> event can be: one of the three tagged shapes, or an
  object with another \<open>type\<close>.  A falsy \<open>event.data\<close> is \<open>None\<close> where a message is expected.
\<close>

datatype message =
    Response IResponseMessage
  | Event IEventMessage
  | Request request
  | OtherType string

text \<open>What \<open>postMessage\<close> hands to the host.\<close>

datatype posted = PostedRequest IRequestMessage | PostedEvent IEventMessage

subsection \<open>Persisted state\<close>

text \<open>
  Modelled from the spec: the declaration of \<open>IState\<close> (module \<open>./protocols\<close>) is not part
  of the sources at hand.  The spec gives the persisted state as a single object with the
  fields \<open>filterLevel: string\<close>, \<open>runIdToTreeState: map<string, opaque>\<close> and
  \<open>runIdLRU: ordered-list<string>\<close>; the opaque serialized tree state is a string here.
\<close>

record IState =
  filterLevel :: string
  runIdToTreeState :: "(string \<times> string) list"
  runIdLRU :: "string list"

text \<open>
  The host's \<open>getState()\<close> returns \<open>any\<close>: an object that may lack any of the three
  fields (legacy or partially initialised data).  \<open>None\<close> is a field that reads as
  \<open>undefined\<close>.  \<open>getState\<close> of this module is declared to return \<open>IState\<close>, but what it
  returns at run time is such an object, so the model returns a \<open>StoredState\<close>.
\<close>

record StoredState =
  st_filterLevel :: "string option"
  st_runIdToTreeState :: "(string \<times> string) list option"
  st_runIdLRU :: "string list option"

definition asStored :: "IState \<Rightarrow> StoredState" where
  "asStored s = \<lparr> st_filterLevel = Some (filterLevel s),
                 st_runIdToTreeState = Some (runIdToTreeState s),
                 st_runIdLRU = Some (runIdLRU s) \<rparr>"

subsection \<open>Active run options\<close>

text \<open>
  The function stored in \<open>opts.onClickReference\<close>: either this module's
  \<open>onClickReference\<close>, or some other function, told apart by a number.
\<close>

datatype callback = OnClickReference | OtherCallback nat

text \<open>
  Modelled from the spec: the object returned by \<open>getOpts()\<close> (module \<open>./options\<close>) is not
  part of the sources at hand.  The spec lists its fields: \<open>runId\<close>, \<open>initialContents\<close>,
  \<open>appendedContents\<close>, \<open>allRunIdsToLabel\<close>, \<open>showTime\<close>, \<open>showExpand\<close> and an optional
  cross-reference callback (the property \<open>onClickReference\<close> in the code; the field is
  named \<open>onClickReferenceCb\<close> here, to keep the name \<open>onClickReference\<close> for the function).
\<close>

record IOpts =
  runId :: "string option"
  initialContents :: string
  appendedContents :: "string list"
  allRunIdsToLabel :: "(string \<times> string) list option"
  showTime :: bool
  showExpand :: bool
  onClickReferenceCb :: "callback option"

subsection \<open>Effects on the external collaborators\<close>

text \<open>
  \<open>saveTreeState\<close> and the \<open>TreeBuilder\<close> class are external: only the calls made on them
  are recorded, in order.  Both read the options through \<open>getOpts()\<close>, so every such
  call is recorded with the options object as it was when the call was made.  Tree
  builders are numbered in the order of their construction.
\<close>

datatype effect =
    SaveTreeState IOpts
  | NewTreeBuilder nat IOpts
  | ClearAndInitializeTree nat IOpts
  | AddInitialContents nat IOpts
  | OnAppendedContents nat IOpts
  | ConsoleLog string
  | EventHandlerCalled IEventMessage

subsection \<open>The host and the module state\<close>

text \<open>
  The injected \<open>IVSCode\<close> api, as the spec describes it (a storage primitive and a
  message sink): \<open>getState()\<close> returns what is stored (\<open>None\<close>: nothing, a falsy value),
  \<open>setState(s)\<close> stores \<open>s\<close>, \<open>postMessage(m)\<close> appends \<open>m\<close> to what the host received.
\<close>

record IVSCode =
  hostState :: "StoredState option"
  hostPosted :: "posted list"

text \<open>
  \<open>msgIdToSeq\<close> maps the \<open>seq\<close> of a request that was posted to the \<open>resolve\<close> function of
  its promise.  Promises are numbered in the order of their creation
  (\<open>promisesCreated\<close>); a \<open>resolve\<close> function is the number of its promise, and
  \<open>resolveCalls\<close> lists every call of a \<open>resolve\<close> function with its argument, in order.
  \<open>requestToHandler\<close> and \<open>eventToHandler\<close> are the names that have a handler
  (a property that is not \<open>undefined\<close>).
\<close>

record world =
  vscode :: "IVSCode option"
  msgIdToSeq :: "(int \<times> nat) list"
  promisesCreated :: nat
  resolveCalls :: "(nat \<times> IResponseMessage) list"
  eventToHandler :: "string list"
  requestToHandler :: "string list"
  lastMessageId :: int
  globalState :: IState
  opts :: IOpts
  treeBuilder :: "nat option"
  treeBuildersCreated :: nat
  effects :: "effect list"

text \<open>
  The state right after the modules are loaded; \<open>o0\<close> is the options object as
  \<open>./options\<close> creates it.
\<close>

definition initialWorld :: "IOpts \<Rightarrow> world" where
  "initialWorld o0 =
     \<lparr> vscode = None, msgIdToSeq = [], promisesCreated = 0, resolveCalls = [],
       eventToHandler = [], requestToHandler = [], lastMessageId = 0,
       globalState = \<lparr> filterLevel = ''PASS'', runIdToTreeState = [], runIdLRU = [] \<rparr>,
       opts = o0, treeBuilder = None, treeBuildersCreated = 0, effects = [] \<rparr>"

section \<open>vscodeComm.ts\<close>

definition setVSCodeAPI :: "IVSCode \<Rightarrow> world \<Rightarrow> world" where
  "setVSCodeAPI api w = w\<lparr>vscode := Some api\<rparr>"

definition isInVSCode :: "world \<Rightarrow> bool" where
  "isInVSCode w = (vscode w \<noteq> None)"

text \<open>
  \<open>_lastMessageId\<close> is a JavaScript number, that is, an IEEE 754 double.  It holds an
  integer: it starts at 0 and only \<open>+= 1\<close> changes it.  The integers that are doubles:
  all of absolute value up to \<open>2^53\<close>, the even ones up to \<open>2^54\<close>, and multiples of
  larger powers of two beyond.  \<open>x + 1\<close> is the double nearest to the exact sum, and in
  a tie the one with the even significand.  So the sum is exact as long as it lies
  within \<open>-2^53 .. 2^53\<close>; for \<open>x\<close> beyond that and below \<open>2^54\<close> in absolute value the
  sum lies half way between \<open>x\<close> and \<open>x + 2\<close>, and the result is the one whose half is
  even; from \<open>2^54\<close> on the result is \<open>x\<close>.  In particular \<open>2^53 + 1\<close> is \<open>2^53\<close> again.
\<close>

definition numberPlusOne :: "int \<Rightarrow> int" where
  "numberPlusOne x =
     (if - (2 ^ 53) \<le> x + 1 \<and> x + 1 \<le> 2 ^ 53 then x + 1
      else if \<bar>x\<bar> < 2 ^ 54 then (if even (x div 2) then x else x + 2)
      else x)"

definition nextMessageSeq :: "world \<Rightarrow> int \<times> world" where
  "nextMessageSeq w =
     (let w' = w\<lparr>lastMessageId := numberPlusOne (lastMessageId w)\<rparr>
      in (lastMessageId w', w'))"

definition postMessage :: "posted \<Rightarrow> IVSCode \<Rightarrow> IVSCode" where
  "postMessage m h = h\<lparr>hostPosted := hostPosted h @ [m]\<rparr>"

text \<open>
  \<open>sendRequestToClient\<close> returns a promise: the model returns its number.  With a host,
  the promise's \<open>resolve\<close> is stored under \<open>message.seq\<close> and the message is posted.
  Without one, the executor builds the response and calls \<open>resolve\<close> at once.
\<close>

definition sendRequestToClient :: "IRequestMessage \<Rightarrow> world \<Rightarrow> nat \<times> world" where
  "sendRequestToClient message w =
     (case vscode w of
        Some vscodeRef \<Rightarrow>
          (let promise = promisesCreated w;
               w1 = w\<lparr>promisesCreated := promise + 1,
                      msgIdToSeq := AList.update (seq message) promise (msgIdToSeq w)\<rparr>;
               w2 = w1\<lparr>vscode := Some (postMessage (PostedRequest message) vscodeRef)\<rparr>
           in (promise, w2))
      | None \<Rightarrow>
          (let promise = promisesCreated w;
               w1 = w\<lparr>promisesCreated := promise + 1\<rparr>;
               (s, w2) = nextMessageSeq w1;
               response = \<lparr> resp_seq = s, resp_command = command message,
                            request_seq = seq message, body = Undefined \<rparr>
           in (promise, w2\<lparr>resolveCalls := resolveCalls w2 @ [(promise, response)]\<rparr>)))"

definition sendEventToClient :: "IEventMessage \<Rightarrow> world \<Rightarrow> world" where
  "sendEventToClient message w =
     (case vscode w of
        Some vscodeRef \<Rightarrow> w\<lparr>vscode := Some (postMessage (PostedEvent message) vscodeRef)\<rparr>
      | None \<Rightarrow> w)"

text \<open>
  Line 200 of \<open>getState\<close> compares \<open>!ret.runIdLRU\<close> with \<open>undefined\<close>.  The two values
  that meet there: the result of \<open>!\<close> is a boolean, and \<open>===\<close> holds between values of
  the same type only.  An array is truthy, \<open>undefined\<close> is falsy.
\<close>

datatype js = JsUndefined | JsBoolean bool

definition js_not :: "'a option \<Rightarrow> js" where
  "js_not v = JsBoolean (v = None)"

definition backfill :: "StoredState \<Rightarrow> StoredState" where
  "backfill ret =
     (let ret1 = (if st_filterLevel ret = None then ret\<lparr>st_filterLevel := Some ''PASS''\<rparr> else ret);
          ret2 = (if st_runIdToTreeState ret1 = None then ret1\<lparr>st_runIdToTreeState := Some []\<rparr> else ret1);
          ret3 = (if js_not (st_runIdLRU ret2) = JsUndefined then ret2\<lparr>st_runIdLRU := Some []\<rparr> else ret2)
      in ret3)"

text \<open>
  \<open>getState\<close> returns an object and writes the defaults into that object; the model
  returns its value.  (When the host has nothing stored, the object is \<open>_globalState\<close>,
  which has all three fields, so nothing is written to it.)
\<close>

definition getState :: "world \<Rightarrow> StoredState" where
  "getState w =
     (case vscode w of
        Some vscodeRef \<Rightarrow>
          (let ret = (case hostState vscodeRef of
                        None \<Rightarrow> asStored (globalState w)
                      | Some r \<Rightarrow> r)
           in backfill ret)
      | None \<Rightarrow> asStored (globalState w))"

definition setState :: "IState \<Rightarrow> world \<Rightarrow> world" where
  "setState state w =
     (case vscode w of
        Some vscodeRef \<Rightarrow> w\<lparr>vscode := Some (vscodeRef\<lparr>hostState := Some (asStored state)\<rparr>)\<rparr>
      | None \<Rightarrow> w\<lparr>globalState := state\<rparr>)"

section \<open>The ingestion module\<close>

text \<open>
  \<open>rebuildTreeAndStatusesFromOpts\<close> is an \<open>async\<close> function that nobody awaits: its body
  runs at once up to its single \<open>await\<close>, that is, through the three calls, and nothing
  follows the \<open>await\<close>.
\<close>

definition rebuildTreeAndStatusesFromOpts :: "world \<Rightarrow> world" where
  "rebuildTreeAndStatusesFromOpts w =
     (let n = treeBuildersCreated w
      in w\<lparr>treeBuilder := Some n, treeBuildersCreated := n + 1,
           effects := effects w @ [NewTreeBuilder n (opts w), ClearAndInitializeTree n (opts w),
                                   AddInitialContents n (opts w)]\<rparr>)"

definition onClickReference :: "any \<Rightarrow> world \<Rightarrow> world" where
  "onClickReference message w =
     (let (s, w1) = nextMessageSeq w;
          ev = \<lparr> ev_seq = s, event = ''onClickReference'', data = message \<rparr>
      in sendEventToClient ev w1)"

definition saveTreeState :: "world \<Rightarrow> world" where
  "saveTreeState w = w\<lparr>effects := effects w @ [SaveTreeState (opts w)]\<rparr>"

definition setContents :: "ISetContentsRequest \<Rightarrow> world \<Rightarrow> world" where
  "setContents msg w =
     (let w0 = saveTreeState w;
          w1 = w0\<lparr>opts := (opts w0)\<lparr>runId := sc_runId msg\<rparr>\<rparr>;
          w2 = w1\<lparr>opts := (opts w1)\<lparr>initialContents := sc_initialContents msg\<rparr>\<rparr>;
          w3 = (if isInVSCode w2
                then w2\<lparr>opts := (opts w2)\<lparr>onClickReferenceCb := Some OnClickReference\<rparr>\<rparr>
                else w2);
          w4 = w3\<lparr>opts := (opts w3)\<lparr>appendedContents := []\<rparr>\<rparr>;
          w5 = w4\<lparr>opts := (opts w4)\<lparr>allRunIdsToLabel := sc_allRunIdsToLabel msg\<rparr>\<rparr>
      in rebuildTreeAndStatusesFromOpts w5)"

text \<open>
  The options object once \<open>setContents\<close> has made its five assignments: what
  \<open>rebuildTreeAndStatusesFromOpts\<close> and the tree builder find.
\<close>

definition setContentsOpts :: "ISetContentsRequest \<Rightarrow> world \<Rightarrow> IOpts" where
  "setContentsOpts msg w =
     (opts w)\<lparr>runId := sc_runId msg,
              initialContents := sc_initialContents msg,
              onClickReferenceCb :=
                (if isInVSCode w then Some OnClickReference else onClickReferenceCb (opts w)),
              appendedContents := [],
              allRunIdsToLabel := sc_allRunIdsToLabel msg\<rparr>"

definition setShowTime :: "bool \<Rightarrow> world \<Rightarrow> world" where
  "setShowTime b w = w\<lparr>opts := (opts w)\<lparr>showTime := b\<rparr>\<rparr>"

definition setShowExpand :: "bool \<Rightarrow> world \<Rightarrow> world" where
  "setShowExpand b w = w\<lparr>opts := (opts w)\<lparr>showExpand := b\<rparr>\<rparr>"

definition appendContents :: "IAppendContentsRequest \<Rightarrow> world \<Rightarrow> world" where
  "appendContents msg w =
     (if runId (opts w) = Some (ac_runId msg)
      then (let w1 = w\<lparr>opts := (opts w)\<lparr>appendedContents :=
                          appendedContents (opts w) @ [ac_appendContents msg]\<rparr>\<rparr>
            in (case treeBuilder w1 of
                  Some n \<Rightarrow> w1\<lparr>effects := effects w1 @ [OnAppendedContents n (opts w1)]\<rparr>
                | None \<Rightarrow> w1))
      else w)"

definition updateLabel :: "IUpdateLabelRequest \<Rightarrow> world \<Rightarrow> world" where
  "updateLabel msg w = w"

definition onChangedRun :: "any \<Rightarrow> world \<Rightarrow> world" where
  "onChangedRun selectedRun w =
     (let (s, w1) = nextMessageSeq w;
          ev = \<lparr> ev_seq = s, event = ''onSetCurrentRunId'',
                 data = Obj [(''runId'', selectedRun)] \<rparr>
      in sendEventToClient ev w1)"

definition setupGlobals :: "world \<Rightarrow> world" where
  "setupGlobals w = w\<lparr>requestToHandler := [''setContents'', ''appendContents'', ''updateLabel'']\<rparr>"

section \<open>The inbound message handler\<close>

text \<open>
  The handler stored under a command is the function of that name (\<open>setupGlobals\<close> is the
  only writer of \<open>requestToHandler\<close>); nothing is ever stored under another command.
\<close>

fun callRequestHandler :: "request \<Rightarrow> world \<Rightarrow> world" where
  "callRequestHandler (SetContentsRequest m) w = setContents m w"
| "callRequestHandler (AppendContentsRequest m) w = appendContents m w"
| "callRequestHandler (UpdateLabelRequest m) w = updateLabel m w"
| "callRequestHandler (UnknownCommand c) w = w"

text \<open>
  The listener registered with \<open>addEventListener('message', ...)\<close>; its argument is
  \<open>event.data\<close>.  No handler of an event is part of the sources, so calling one is
  recorded as an effect.  The two handler tables are plain objects: an event or a
  command named like a property every object inherits (\<open>toString\<close>, \<open>__proto__\<close>, ...)
  finds that property there.  Such names are not covered by the event and request
  branches below; the response branch looks up a number, which names no such property.
\<close>

fun onMessage :: "message option \<Rightarrow> world \<Rightarrow> world" where
  "onMessage None w = w"
| "onMessage (Some (Response responseMsg)) w =
     (case map_of (msgIdToSeq w) (request_seq responseMsg) of
        Some resolvePromise \<Rightarrow>
          w\<lparr>msgIdToSeq := AList.delete (request_seq responseMsg) (msgIdToSeq w),
            resolveCalls := resolveCalls w @ [(resolvePromise, responseMsg)]\<rparr>
      | None \<Rightarrow> w)"
| "onMessage (Some (Event msg)) w =
     (if event msg \<in> set (eventToHandler w)
      then w\<lparr>effects := effects w @ [EventHandlerCalled msg]\<rparr>
      else w\<lparr>effects := effects w @ [ConsoleLog ''Unhandled event: '']\<rparr>)"
| "onMessage (Some (Request msg)) w =
     (if command_of msg \<in> set (requestToHandler w)
      then callRequestHandler msg w
      else w\<lparr>effects := effects w @ [ConsoleLog ''Unhandled request: '']\<rparr>)"
| "onMessage (Some (OtherType t)) w = w"

section \<open>Runs of the view\<close>

text \<open>
  Everything that can happen to the module state, one call at a time: the exported
  functions, and the delivery of an inbound message.
\<close>

datatype action =
    SetVSCodeAPI IVSCode
  | NextMessageSeq
  | SendRequestToClient IRequestMessage
  | SendEventToClient IEventMessage
  | OnMessage "message option"
  | SetState IState
  | SetContents ISetContentsRequest
  | SetShowTime bool
  | SetShowExpand bool
  | AppendContents IAppendContentsRequest
  | UpdateLabel IUpdateLabelRequest
  | ClickReference any
  | ChangedRun any
  | SetupGlobals

fun perform :: "action \<Rightarrow> world \<Rightarrow> world" where
  "perform (SetVSCodeAPI api) w = setVSCodeAPI api w"
| "perform NextMessageSeq w = snd (nextMessageSeq w)"
| "perform (SendRequestToClient m) w = snd (sendRequestToClient m w)"
| "perform (SendEventToClient m) w = sendEventToClient m w"
| "perform (OnMessage m) w = onMessage m w"
| "perform (SetState s) w = setState s w"
| "perform (SetContents m) w = setContents m w"
| "perform (SetShowTime b) w = setShowTime b w"
| "perform (SetShowExpand b) w = setShowExpand b w"
| "perform (AppendContents m) w = appendContents m w"
| "perform (UpdateLabel m) w = updateLabel m w"
| "perform (ClickReference m) w = onClickReference m w"
| "perform (ChangedRun r) w = onChangedRun r w"
| "perform SetupGlobals w = setupGlobals w"

fun run :: "action list \<Rightarrow> world \<Rightarrow> world" where
  "run [] w = w"
| "run (a # as) w = run as (perform a w)"

section \<open>Promises and their resolution\<close>

text \<open>The arguments of the calls of promise \<open>p\<close>'s \<open>resolve\<close> function so far, in order.\<close>

definition callsOf :: "nat \<Rightarrow> world \<Rightarrow> IResponseMessage list" where
  "callsOf p w = map snd (filter (\<lambda>c. fst c = p) (resolveCalls w))"

text \<open>
  What holds of the promises in every state the view can reach: no \<open>resolve\<close> function
  was called twice, none is stored under two keys, every promise mentioned was created,
  and a stored \<open>resolve\<close> function has not been called yet.
\<close>

definition promisesOk :: "world \<Rightarrow> bool" where
  "promisesOk w =
     (distinct (map fst (resolveCalls w)) \<and>
      distinct (map snd (msgIdToSeq w)) \<and>
      list_all (\<lambda>p. p < promisesCreated w) (map fst (resolveCalls w)) \<and>
      list_all (\<lambda>p. p < promisesCreated w \<and> p \<notin> set (map fst (resolveCalls w)))
        (map snd (msgIdToSeq w)))"

text \<open>Every step but posting a request and receiving a response leaves the promises alone.\<close>

fun touchesPromises :: "action \<Rightarrow> bool" where
  "touchesPromises (SendRequestToClient m) = True"
| "touchesPromises (OnMessage (Some (Response r))) = True"
| "touchesPromises a = False"


text \<open>The effect that is an incremental-append notification to a tree builder.\<close>

definition isAppendNotification :: "effect \<Rightarrow> bool" where
  "isAppendNotification e = (case e of OnAppendedContents n o' \<Rightarrow> True | _ \<Rightarrow> False)"

section \<open>The LRU discipline of the state store\<close>

text \<open>
  Modelled from the spec: the code that maintains \<open>runIdLRU\<close> and \<open>runIdToTreeState\<close>
  (behind \<open>saveTreeState\<close>, module \<open>./persistTree\<close>) is not part of the sources at hand;
  \<open>vscodeComm.ts\<close> only declares the initial \<open>_globalState\<close>.  The spec: whenever a run
  identifier becomes active, move it to the most-recently-used position of \<open>runIdLRU\<close>;
  insert it if absent.  When the number of distinct run identifiers exceeds a configured
  cap, evict the least-recently-used identifier from both \<open>runIdLRU\<close> and
  \<open>runIdToTreeState\<close>.  Eviction must never remove the currently active run.

  The most-recently-used position is the end of the list here.  \<open>ts\<close> is the tree state
  stored for a run that had none.
\<close>

definition touchRun :: "string \<Rightarrow> string list \<Rightarrow> string list" where
  "touchRun rid lru = filter (\<lambda>r. r \<noteq> rid) lru @ [rid]"

fun evictRuns :: "nat \<Rightarrow> string \<Rightarrow> string list \<Rightarrow> string list" where
  "evictRuns cap active [] = []"
| "evictRuns cap active (r # rs) =
     (if cap < length (r # rs) \<and> r \<noteq> active then evictRuns cap active rs else r # rs)"

definition activateRun :: "nat \<Rightarrow> string \<Rightarrow> string \<Rightarrow> IState \<Rightarrow> IState" where
  "activateRun cap rid ts st =
     (let lru = evictRuns cap rid (touchRun rid (runIdLRU st));
          states = (if rid \<in> set (map fst (runIdToTreeState st))
                    then runIdToTreeState st
                    else runIdToTreeState st @ [(rid, ts)])
      in st\<lparr>runIdToTreeState := filter (\<lambda>e. fst e \<in> set lru) states, runIdLRU := lru\<rparr>)"

fun activateAll :: "nat \<Rightarrow> (string \<times> string) list \<Rightarrow> IState \<Rightarrow> IState" where
  "activateAll cap [] st = st"
| "activateAll cap (a # as) st = activateAll cap as (activateRun cap (fst a) (snd a) st)"

text \<open>
  The invariant of the spec: every key of \<open>runIdToTreeState\<close> appears exactly once in
  \<open>runIdLRU\<close>, and the other way round.
\<close>

definition lruInvariant :: "IState \<Rightarrow> bool" where
  "lruInvariant st =
     (distinct (runIdLRU st) \<and> distinct (map fst (runIdToTreeState st)) \<and>
      set (runIdLRU st) = set (map fst (runIdToTreeState st)))"

section \<open>Sample values\<close>

text \<open>Concrete options, requests, responses and hosts, used where a statement is run on an input.\<close>

definition exampleOpts :: IOpts where
  "exampleOpts = \<lparr> runId = None, initialContents = [], appendedContents = [],
                    allRunIdsToLabel = None, showTime = False, showExpand = False,
                    onClickReferenceCb = None \<rparr>"

definition runA :: ISetContentsRequest where
  "runA = \<lparr> sc_initialContents = ''a'', sc_runId = Some ''A'', sc_allRunIdsToLabel = None \<rparr>"

definition runB :: ISetContentsRequest where
  "runB = \<lparr> sc_initialContents = ''b'', sc_runId = Some ''B'', sc_allRunIdsToLabel = None \<rparr>"

definition duplicateResponse :: IResponseMessage where
  "duplicateResponse = \<lparr> resp_seq = 7, resp_command = ''setContents'', request_seq = 1,
                          body = Undefined \<rparr>"

definition exampleRequest :: IRequestMessage where
  "exampleRequest = \<lparr> seq = 1, command = ''setContents'', props = [] \<rparr>"

definition exampleHost :: IVSCode where
  "exampleHost = \<lparr> hostState = None, hostPosted = [] \<rparr>"

definition chunkForA :: IAppendContentsRequest where
  "chunkForA = \<lparr> ac_appendContents = ''late'', ac_runId = ''A'' \<rparr>"

definition legacyHost :: IVSCode where
  "legacyHost = \<lparr> hostState = Some \<lparr> st_filterLevel = None, st_runIdToTreeState = None,
                                       st_runIdLRU = None \<rparr>,
                   hostPosted = [] \<rparr>"

section \<open>Sequence numbers\<close>

lemma numberPlusOne_ge: "x \<le> numberPlusOne x"
  by (simp add: numberPlusOne_def)

lemma numberPlusOne_exact: "0 \<le> x \<Longrightarrow> x < 2 ^ 53 \<Longrightarrow> numberPlusOne x = x + 1"
  by (simp add: numberPlusOne_def)

lemma nextMessageSeq_value: "fst (nextMessageSeq w) = numberPlusOne (lastMessageId w)"
  by (simp add: nextMessageSeq_def Let_def)

lemma nextMessageSeq_counter:
  "lastMessageId (snd (nextMessageSeq w)) = numberPlusOne (lastMessageId w)"
  by (simp add: nextMessageSeq_def Let_def)

lemma nextMessageSeq_world:
  "snd (nextMessageSeq w) = w\<lparr>lastMessageId := numberPlusOne (lastMessageId w)\<rparr>"
  by (simp add: nextMessageSeq_def Let_def)

lemma sendEventToClient_counter: "lastMessageId (sendEventToClient m w) = lastMessageId w"
  by (simp add: sendEventToClient_def split: option.splits)

lemma onMessage_counter: "lastMessageId (onMessage m w) = lastMessageId w"
proof (cases "(m, w)" rule: onMessage.cases)
  case (4 msg w')
  then show ?thesis
    by (cases msg)
       (simp_all add: setContents_def saveTreeState_def isInVSCode_def
          rebuildTreeAndStatusesFromOpts_def appendContents_def updateLabel_def Let_def
          split: option.splits)
qed (simp_all split: option.splits)

lemma perform_counter: "lastMessageId w \<le> lastMessageId (perform a w)"
proof (cases a)
  case NextMessageSeq
  then show ?thesis by (simp add: nextMessageSeq_counter numberPlusOne_ge)
next
  case (SendRequestToClient m)
  then show ?thesis
    by (simp add: sendRequestToClient_def nextMessageSeq_def Let_def numberPlusOne_ge
          split: option.splits)
next
  case (OnMessage m)
  then show ?thesis by (simp add: onMessage_counter)
next
  case (ClickReference m)
  then show ?thesis
    by (simp add: onClickReference_def nextMessageSeq_def Let_def sendEventToClient_counter
          numberPlusOne_ge)
next
  case (ChangedRun r)
  then show ?thesis
    by (simp add: onChangedRun_def nextMessageSeq_def Let_def sendEventToClient_counter
          numberPlusOne_ge)
qed (simp_all add: setVSCodeAPI_def sendEventToClient_counter setState_def
       setContents_def saveTreeState_def isInVSCode_def rebuildTreeAndStatusesFromOpts_def
       setShowTime_def setShowExpand_def appendContents_def updateLabel_def setupGlobals_def
       Let_def split: option.splits)

lemma run_counter: "lastMessageId w \<le> lastMessageId (run as w)"
proof (induction as arbitrary: w)
  case Nil
  show ?case by simp
next
  case (Cons a as)
  have "lastMessageId w \<le> lastMessageId (perform a w)" by (rule perform_counter)
  also have "\<dots> \<le> lastMessageId (run as (perform a w))" by (rule Cons.IH)
  finally show ?case by simp
qed

lemma reachable_counter: "0 \<le> lastMessageId (run pre (initialWorld o0))"
  using run_counter [of "initialWorld o0" pre] by (simp add: initialWorld_def)

text \<open>\<open>n\<close> calls of \<open>nextMessageSeq()\<close> in a row, as long as the counter stays within \<open>2^53\<close>.\<close>

lemma calls_counter:
  "0 \<le> lastMessageId w \<Longrightarrow> lastMessageId w + int n \<le> 2 ^ 53 \<Longrightarrow>
   run (replicate n NextMessageSeq) w = w\<lparr>lastMessageId := lastMessageId w + int n\<rparr>"
proof (induction n arbitrary: w)
  case 0
  show ?case by simp
next
  case (Suc n)
  let ?w1 = "w\<lparr>lastMessageId := lastMessageId w + 1\<rparr>"
  from Suc.prems have "numberPlusOne (lastMessageId w) = lastMessageId w + 1"
    by (intro numberPlusOne_exact) simp_all
  then have step: "snd (nextMessageSeq w) = ?w1" by (simp add: nextMessageSeq_world)
  from Suc.prems have "run (replicate n NextMessageSeq) ?w1 =
                         ?w1\<lparr>lastMessageId := lastMessageId ?w1 + int n\<rparr>"
    by (intro Suc.IH) simp_all
  with step show ?case by (simp add: add.assoc)
qed

text \<open>
  After \<open>2^53 - 1\<close> calls the counter is at \<open>2^53 - 1\<close>.  The next call returns \<open>2^53\<close>, and
  so does the call after it: not every call returns more than the previous one.
\<close>

theorem nextMessageSeq_stalls_at_2_53:
  "fst (nextMessageSeq (run (replicate (2 ^ 53 - 1) NextMessageSeq) (initialWorld exampleOpts)))
     = 2 ^ 53 \<and>
   fst (nextMessageSeq (snd (nextMessageSeq
          (run (replicate (2 ^ 53 - 1) NextMessageSeq) (initialWorld exampleOpts)))))
     = 2 ^ 53 \<and>
   \<not> fst (nextMessageSeq (run (replicate (2 ^ 53 - 1) NextMessageSeq) (initialWorld exampleOpts)))
       < fst (nextMessageSeq (snd (nextMessageSeq
          (run (replicate (2 ^ 53 - 1) NextMessageSeq) (initialWorld exampleOpts)))))"
proof -
  let ?n = "2 ^ 53 - 1 :: nat"
  let ?W = "run (replicate ?n NextMessageSeq) (initialWorld exampleOpts)"
  have start: "lastMessageId (initialWorld exampleOpts) = 0" by (simp add: initialWorld_def)
  have "?W = (initialWorld exampleOpts)\<lparr>lastMessageId :=
                lastMessageId (initialWorld exampleOpts) + int ?n\<rparr>"
    by (rule calls_counter) (simp_all add: start)
  then have "lastMessageId ?W =
               lastMessageId ((initialWorld exampleOpts)\<lparr>lastMessageId :=
                 lastMessageId (initialWorld exampleOpts) + int ?n\<rparr>)"
    by (rule arg_cong)
  also have "\<dots> = 2 ^ 53 - 1" by (simp add: start)
  finally have counter: "lastMessageId ?W = 2 ^ 53 - 1" .
  have first: "fst (nextMessageSeq ?W) = 2 ^ 53"
    unfolding nextMessageSeq_value counter by (simp add: numberPlusOne_def)
  have second: "fst (nextMessageSeq (snd (nextMessageSeq ?W))) = 2 ^ 53"
    unfolding nextMessageSeq_value nextMessageSeq_counter counter
    by (simp add: numberPlusOne_def)
  show ?thesis unfolding first second by simp
qed

text \<open>
  Claim C9, as amended.  The first call of \<open>nextMessageSeq()\<close> after the module is loaded
  returns 1, and in every run of the view a call made while the counter is below \<open>2^53\<close>
  returns an integer strictly greater than the one the previous call returned,
  whatever the view did between the two calls.
\<close>

theorem nextMessageSeq_increasing_below_2_53:
  assumes reach: "w = run pre (initialWorld o0)"
    and below: "lastMessageId (run as (snd (nextMessageSeq w))) < 2 ^ 53"
  shows "fst (nextMessageSeq (initialWorld o0)) = 1 \<and>
         fst (nextMessageSeq w) < fst (nextMessageSeq (run as (snd (nextMessageSeq w))))"
proof -
  let ?w1 = "snd (nextMessageSeq w)"
  let ?w2 = "run as ?w1"
  have w0: "0 \<le> lastMessageId w" unfolding reach by (rule reachable_counter)
  also have "lastMessageId w \<le> lastMessageId ?w1"
    by (simp add: nextMessageSeq_counter numberPlusOne_ge)
  also have mono: "lastMessageId ?w1 \<le> lastMessageId ?w2" by (rule run_counter)
  finally have w2: "0 \<le> lastMessageId ?w2" .
  have "fst (nextMessageSeq w) = lastMessageId ?w1"
    by (simp add: nextMessageSeq_value nextMessageSeq_counter)
  also note mono
  also have "lastMessageId ?w2 < numberPlusOne (lastMessageId ?w2)"
    using w2 below by (simp add: numberPlusOne_exact)
  finally have later: "fst (nextMessageSeq w) < fst (nextMessageSeq ?w2)"
    by (simp add: nextMessageSeq_value)
  have "fst (nextMessageSeq (initialWorld o0)) = 1"
    by (simp add: nextMessageSeq_value initialWorld_def numberPlusOne_def)
  with later show ?thesis by (rule conjI [rotated])
qed

text \<open>
  The theorem at a concrete run: the first call, a request sent without a host (which
  takes the next number for its response), and another call.
\<close>

theorem nextMessageSeq_increasing_below_2_53_witness:
  "lastMessageId (run [SendRequestToClient exampleRequest]
                    (snd (nextMessageSeq (initialWorld exampleOpts)))) < 2 ^ 53 \<and>
   fst (nextMessageSeq (initialWorld exampleOpts)) = 1 \<and>
   fst (nextMessageSeq (run [SendRequestToClient exampleRequest]
                          (snd (nextMessageSeq (initialWorld exampleOpts))))) = 3"
  using nextMessageSeq_increasing_below_2_53
          [of "initialWorld exampleOpts" "[]" exampleOpts "[SendRequestToClient exampleRequest]"]
  by (simp add: initialWorld_def nextMessageSeq_def sendRequestToClient_def numberPlusOne_def
        Let_def)

section \<open>The pending-request registry\<close>

lemma update_values: "snd ` set (AList.update k v al) \<subseteq> insert v (snd ` set al)"
  by (induction al) auto

lemma distinct_update_values:
  "distinct (map snd al) \<Longrightarrow> v \<notin> snd ` set al \<Longrightarrow> distinct (map snd (AList.update k v al))"
proof (induction al)
  case Nil
  show ?case by simp
next
  case (Cons e al)
  obtain k' v' where e: "e = (k', v')" by (cases e)
  from Cons.prems have d: "distinct (map snd al)" and n: "v \<notin> snd ` set al" and v': "v' \<notin> snd ` set al" and ne: "v \<noteq> v'"
    by (auto simp: e)
  show ?case
  proof (cases "k' = k")
    case True
    with d n show ?thesis by (simp add: e)
  next
    case False
    have "v' \<notin> snd ` set (AList.update k v al)"
      using update_values [of k v al] v' ne by auto
    with False Cons.IH [OF d n] show ?thesis by (simp add: e)
  qed
qed

lemma distinct_delete_values:
  "distinct (map snd al) \<Longrightarrow> distinct (map snd (AList.delete k al))"
  by (simp add: AList.delete_eq distinct_map_filter)

lemma delete_values: "set (AList.delete k al) \<subseteq> set al"
  by (auto simp: AList.delete_eq)

lemma delete_removes_value:
  assumes "distinct (map snd al)" and "map_of al k = Some p"
  shows "p \<notin> snd ` set (AList.delete k al)"
proof
  assume "p \<in> snd ` set (AList.delete k al)"
  then obtain k' where in': "(k', p) \<in> set (AList.delete k al)" by auto
  then have k': "k' \<noteq> k" and mem': "(k', p) \<in> set al" by (auto simp: AList.delete_eq)
  from assms(2) have mem: "(k, p) \<in> set al" by (rule map_of_SomeD)
  from assms(1) have inj: "inj_on snd (set al)" by (simp add: distinct_map)
  have "snd (k', p) = snd (k, p)" by simp
  from inj_onD [OF inj this mem' mem] have "(k', p) = (k, p)" .
  with k' show False by simp
qed

lemmas controller_defs =
  setContents_def saveTreeState_def isInVSCode_def rebuildTreeAndStatusesFromOpts_def
  appendContents_def updateLabel_def setShowTime_def setShowExpand_def setupGlobals_def
  onClickReference_def onChangedRun_def

lemma sendEventToClient_promises:
  "msgIdToSeq (sendEventToClient m w) = msgIdToSeq w \<and>
   promisesCreated (sendEventToClient m w) = promisesCreated w \<and>
   resolveCalls (sendEventToClient m w) = resolveCalls w"
  by (simp add: sendEventToClient_def split: option.splits)

lemma callRequestHandler_promises:
  "msgIdToSeq (callRequestHandler r w) = msgIdToSeq w \<and>
   promisesCreated (callRequestHandler r w) = promisesCreated w \<and>
   resolveCalls (callRequestHandler r w) = resolveCalls w"
  by (cases r) (simp_all add: controller_defs Let_def split: option.splits)

lemma perform_promises_frame:
  assumes "\<not> touchesPromises a"
  shows "msgIdToSeq (perform a w) = msgIdToSeq w \<and>
         promisesCreated (perform a w) = promisesCreated w \<and>
         resolveCalls (perform a w) = resolveCalls w"
proof (cases a)
  case (OnMessage m)
  with assms show ?thesis
    by (cases "(m, w)" rule: onMessage.cases) (simp_all add: callRequestHandler_promises)
next
  case (ClickReference m)
  then show ?thesis
    by (simp add: onClickReference_def nextMessageSeq_def Let_def sendEventToClient_promises)
next
  case (ChangedRun r)
  then show ?thesis
    by (simp add: onChangedRun_def nextMessageSeq_def Let_def sendEventToClient_promises)
qed (use assms in \<open>simp_all add: setVSCodeAPI_def nextMessageSeq_def sendEventToClient_promises
       setState_def controller_defs Let_def split: option.splits\<close>)

lemma promisesOk_iff:
  "promisesOk w \<longleftrightarrow>
     distinct (map fst (resolveCalls w)) \<and> distinct (map snd (msgIdToSeq w)) \<and>
     (\<forall>p. p \<in> fst ` set (resolveCalls w) \<longrightarrow> p < promisesCreated w) \<and>
     (\<forall>p. p \<in> snd ` set (msgIdToSeq w) \<longrightarrow>
          p < promisesCreated w \<and> p \<notin> fst ` set (resolveCalls w))"
  by (auto simp: promisesOk_def list_all_iff)

lemma promisesOk_sendRequestToClient:
  assumes ok: "promisesOk w"
  shows "promisesOk (snd (sendRequestToClient m w))"
proof (cases "vscode w")
  case None
  let ?n = "promisesCreated w"
  let ?r = "\<lparr> resp_seq = numberPlusOne (lastMessageId w), resp_command = command m,
              request_seq = seq m, body = Undefined \<rparr>"
  have w': "msgIdToSeq (snd (sendRequestToClient m w)) = msgIdToSeq w"
    "promisesCreated (snd (sendRequestToClient m w)) = Suc ?n"
    "resolveCalls (snd (sendRequestToClient m w)) = resolveCalls w @ [(?n, ?r)]"
    using None by (simp_all add: sendRequestToClient_def nextMessageSeq_def Let_def)
  from ok have fresh: "?n \<notin> fst ` set (resolveCalls w)"
    unfolding promisesOk_iff by blast
  from ok fresh have calls: "distinct (map fst (resolveCalls w @ [(?n, ?r)]))"
    by (simp add: promisesOk_iff)
  have created: "q < Suc ?n" if "q \<in> fst ` set (resolveCalls w @ [(?n, ?r)])" for q
  proof -
    from that have "q = ?n \<or> q \<in> fst ` set (resolveCalls w)" by auto
    with ok show ?thesis unfolding promisesOk_iff by (blast intro: less_SucI)
  qed
  have pending: "q < Suc ?n \<and> q \<notin> fst ` set (resolveCalls w @ [(?n, ?r)])"
    if "q \<in> snd ` set (msgIdToSeq w)" for q
  proof -
    from that ok have "q < ?n" "q \<notin> fst ` set (resolveCalls w)"
      unfolding promisesOk_iff by blast+
    then show ?thesis by auto
  qed
  from ok have d: "distinct (map snd (msgIdToSeq w))" by (simp add: promisesOk_iff)
  show ?thesis
    unfolding promisesOk_iff w' using d calls created pending by blast
next
  case (Some h)
  let ?n = "promisesCreated w"
  let ?al = "AList.update (seq m) ?n (msgIdToSeq w)"
  from ok have fresh: "?n \<notin> snd ` set (msgIdToSeq w)"
    unfolding promisesOk_iff by blast
  from ok have "distinct (map snd (msgIdToSeq w))" by (simp add: promisesOk_iff)
  then have d: "distinct (map snd ?al)" using fresh by (rule distinct_update_values)
  have vals: "p < Suc ?n \<and> p \<notin> fst ` set (resolveCalls w)" if "p \<in> snd ` set ?al" for p
  proof -
    from that update_values [of "seq m" ?n "msgIdToSeq w"]
    have "p = ?n \<or> p \<in> snd ` set (msgIdToSeq w)" by blast
    moreover have "?n \<notin> fst ` set (resolveCalls w)"
      using ok unfolding promisesOk_iff by blast
    moreover have "q < ?n \<and> q \<notin> fst ` set (resolveCalls w)" if "q \<in> snd ` set (msgIdToSeq w)" for q
      using ok that unfolding promisesOk_iff by blast
    ultimately show ?thesis by (auto simp: less_Suc_eq)
  qed
  have w': "msgIdToSeq (snd (sendRequestToClient m w)) = ?al"
    "promisesCreated (snd (sendRequestToClient m w)) = Suc ?n"
    "resolveCalls (snd (sendRequestToClient m w)) = resolveCalls w"
    using Some by (simp_all add: sendRequestToClient_def Let_def)
  from ok have calls: "distinct (map fst (resolveCalls w))"
    by (simp add: promisesOk_iff)
  have created: "q < Suc ?n" if "q \<in> fst ` set (resolveCalls w)" for q
    using ok that unfolding promisesOk_iff by (blast intro: less_SucI)
  show ?thesis
    unfolding promisesOk_iff w' using d vals calls created by blast
qed

lemma promisesOk_response:
  assumes ok: "promisesOk w"
  shows "promisesOk (onMessage (Some (Response r)) w)"
proof (cases "map_of (msgIdToSeq w) (request_seq r)")
  case None
  with ok show ?thesis by simp
next
  case (Some p)
  let ?al = "AList.delete (request_seq r) (msgIdToSeq w)"
  let ?w' = "onMessage (Some (Response r)) w"
  from Some have "(request_seq r, p) \<in> set (msgIdToSeq w)" by (rule map_of_SomeD)
  then have mem: "p \<in> snd ` set (msgIdToSeq w)" by force
  from ok have dv: "distinct (map snd (msgIdToSeq w))" by (simp add: promisesOk_iff)
  have gone: "p \<notin> snd ` set ?al" using dv Some by (rule delete_removes_value)
  have sub: "snd ` set ?al \<subseteq> snd ` set (msgIdToSeq w)" using delete_values [of "request_seq r"] by blast
  have d: "distinct (map snd ?al)" using dv by (rule distinct_delete_values)
  from ok mem have p: "p < promisesCreated w" "p \<notin> fst ` set (resolveCalls w)"
    unfolding promisesOk_iff by blast+
  have w': "msgIdToSeq ?w' = ?al" "promisesCreated ?w' = promisesCreated w"
    "resolveCalls ?w' = resolveCalls w @ [(p, r)]"
    using Some by simp_all
  have calls: "distinct (map fst (resolveCalls w @ [(p, r)]))"
    using ok p(2) by (simp add: promisesOk_iff)
  have created: "q < promisesCreated w" if "q \<in> fst ` set (resolveCalls w @ [(p, r)])" for q
  proof -
    from that have "q = p \<or> q \<in> fst ` set (resolveCalls w)" by auto
    with ok p(1) show ?thesis unfolding promisesOk_iff by blast
  qed
  have pending: "q < promisesCreated w \<and> q \<notin> fst ` set (resolveCalls w @ [(p, r)])"
    if "q \<in> snd ` set ?al" for q
  proof -
    from that sub have "q \<in> snd ` set (msgIdToSeq w)" by blast
    with ok have "q < promisesCreated w" "q \<notin> fst ` set (resolveCalls w)"
      unfolding promisesOk_iff by blast+
    moreover from that gone have "q \<noteq> p" by blast
    ultimately show ?thesis by auto
  qed
  show ?thesis
    unfolding promisesOk_iff w' using d calls created pending by blast
qed

lemma promisesOk_perform:
  assumes "promisesOk w"
  shows "promisesOk (perform a w)"
proof (cases "touchesPromises a")
  case False
  with assms perform_promises_frame [of a w] show ?thesis by (simp add: promisesOk_def)
next
  case True
  then show ?thesis
  proof (cases a rule: touchesPromises.cases)
    case (1 m)
    with assms show ?thesis by (simp add: promisesOk_sendRequestToClient)
  next
    case (2 r)
    with assms show ?thesis by (simp only: perform.simps promisesOk_response)
  qed simp_all
qed

lemma promisesOk_run: "promisesOk w \<Longrightarrow> promisesOk (run as w)"
  by (induction as arbitrary: w) (simp_all add: promisesOk_perform)

lemma promisesOk_initialWorld: "promisesOk (initialWorld o0)"
  by (simp add: promisesOk_def initialWorld_def)

lemma update_value_cases:
  "q \<in> snd ` set (AList.update k v al) \<Longrightarrow> q = v \<or> q \<in> snd ` set al"
  using update_values [of k v al] by blast





section \<open>Requests without a host, responses without a request\<close>

lemma promisesOk_reachable: "promisesOk (run pre (initialWorld o0))"
  by (rule promisesOk_run) (rule promisesOk_initialWorld)




lemma distinct_keys_filter:
  "distinct (map fst xs) \<Longrightarrow> length (filter (\<lambda>c. fst c = p) xs) \<le> 1"
proof (induction xs)
  case Nil
  show ?case by simp
next
  case (Cons x xs)
  show ?case
  proof (cases "fst x = p")
    case True
    with Cons.prems have "p \<notin> fst ` set xs" by simp
    then have "filter (\<lambda>c. fst c = p) xs = []"
      unfolding filter_empty_conv by (metis imageI)
    with True show ?thesis by simp
  next
    case False
    with Cons show ?thesis by simp
  qed
qed

text \<open>
  Claim C7.  A response whose \<open>request_seq\<close> is not in \<open>msgIdToSeq\<close> changes nothing at
  all.  Any response leaves the entries under the other keys as they are, and a second
  response with the same \<open>request_seq\<close> is dropped.  So in every state the view can
  reach, the \<open>resolve\<close> function of a promise has been called at most once.
\<close>

theorem unmatched_response_dropped:
  "(map_of (msgIdToSeq w) (request_seq r) = None \<longrightarrow> onMessage (Some (Response r)) w = w) \<and>
   (k \<noteq> request_seq r \<longrightarrow>
      map_of (msgIdToSeq (onMessage (Some (Response r)) w)) k = map_of (msgIdToSeq w) k) \<and>
   (request_seq r' = request_seq r \<longrightarrow>
      onMessage (Some (Response r')) (onMessage (Some (Response r)) w) =
      onMessage (Some (Response r)) w) \<and>
   length (callsOf p (run steps (initialWorld o0))) \<le> 1"
proof (intro conjI impI)
  assume "map_of (msgIdToSeq w) (request_seq r) = None"
  then show "onMessage (Some (Response r)) w = w" by simp
next
  assume "k \<noteq> request_seq r"
  then show "map_of (msgIdToSeq (onMessage (Some (Response r)) w)) k = map_of (msgIdToSeq w) k"
    by (simp add: AList.delete_conv' split: option.splits)
next
  assume same: "request_seq r' = request_seq r"
  have "map_of (msgIdToSeq (onMessage (Some (Response r)) w)) (request_seq r) = None"
    by (simp add: AList.delete_conv' split: option.splits)
  with same show "onMessage (Some (Response r')) (onMessage (Some (Response r)) w) =
      onMessage (Some (Response r)) w"
    by (simp only: onMessage.simps option.case)
next
  have "promisesOk (run steps (initialWorld o0))" by (rule promisesOk_reachable)
  then have "distinct (map fst (resolveCalls (run steps (initialWorld o0))))"
    by (simp add: promisesOk_iff)
  then show "length (callsOf p (run steps (initialWorld o0))) \<le> 1"
    unfolding callsOf_def length_map by (rule distinct_keys_filter)
qed

text \<open>
  The theorem at concrete inputs: a response nobody waits for, and a request posted to
  a host that is answered twice.
\<close>

theorem unmatched_response_dropped_witness:
  "map_of (msgIdToSeq (initialWorld exampleOpts)) (request_seq duplicateResponse) = None \<and>
   onMessage (Some (Response duplicateResponse)) (initialWorld exampleOpts) =
     initialWorld exampleOpts \<and>
   (2::int) \<noteq> request_seq duplicateResponse \<and>
   callsOf 0 (run [SetVSCodeAPI exampleHost, SendRequestToClient exampleRequest,
                   OnMessage (Some (Response duplicateResponse)),
                   OnMessage (Some (Response duplicateResponse))]
                (initialWorld exampleOpts)) = [duplicateResponse] \<and>
   length (callsOf 0 (run [SetVSCodeAPI exampleHost, SendRequestToClient exampleRequest,
                            OnMessage (Some (Response duplicateResponse)),
                            OnMessage (Some (Response duplicateResponse))]
                        (initialWorld exampleOpts))) \<le> 1"
  using unmatched_response_dropped
          [of "initialWorld exampleOpts" duplicateResponse 2 duplicateResponse 0
              "[SetVSCodeAPI exampleHost, SendRequestToClient exampleRequest,
                OnMessage (Some (Response duplicateResponse)),
                OnMessage (Some (Response duplicateResponse))]" exampleOpts]
  by (simp add: initialWorld_def duplicateResponse_def exampleRequest_def exampleHost_def
        sendRequestToClient_def setVSCodeAPI_def callsOf_def postMessage_def Let_def)

section \<open>The ingestion controller and the state store\<close>

text \<open>What \<open>setContents\<close> does to the module state, in one step.\<close>

lemma setContents_eq:
  "setContents msg w =
     w\<lparr>opts := setContentsOpts msg w,
       treeBuilder := Some (treeBuildersCreated w),
       treeBuildersCreated := treeBuildersCreated w + 1,
       effects := effects w @
         [SaveTreeState (opts w),
          NewTreeBuilder (treeBuildersCreated w) (setContentsOpts msg w),
          ClearAndInitializeTree (treeBuildersCreated w) (setContentsOpts msg w),
          AddInitialContents (treeBuildersCreated w) (setContentsOpts msg w)]\<rparr>"
  by (simp add: setContents_def saveTreeState_def rebuildTreeAndStatusesFromOpts_def
        isInVSCode_def setContentsOpts_def Let_def)

text \<open>
  Claim C2.  \<open>setContents\<close> calls \<open>saveTreeState\<close> exactly once, while the options are still
  those of the run that was active; then it overwrites the options with the data of the
  new run; then it builds the tree once from scratch, on the options as overwritten: a
  new \<open>TreeBuilder\<close>, \<open>clearAndInitializeTree\<close> and \<open>addInitialContents\<close> on it, in this
  order.  It makes no other call on a collaborator, and no \<open>onAppendedContents\<close> call.
\<close>

theorem setContents_saves_then_rebuilds:
  "effects (setContents msg w) =
     effects w @ [SaveTreeState (opts w),
                  NewTreeBuilder (treeBuildersCreated w) (opts (setContents msg w)),
                  ClearAndInitializeTree (treeBuildersCreated w) (opts (setContents msg w)),
                  AddInitialContents (treeBuildersCreated w) (opts (setContents msg w))] \<and>
   runId (opts (setContents msg w)) = sc_runId msg \<and>
   initialContents (opts (setContents msg w)) = sc_initialContents msg \<and>
   allRunIdsToLabel (opts (setContents msg w)) = sc_allRunIdsToLabel msg \<and>
   appendedContents (opts (setContents msg w)) = [] \<and>
   treeBuilder (setContents msg w) = Some (treeBuildersCreated w) \<and>
   filter isAppendNotification (effects (setContents msg w)) =
     filter isAppendNotification (effects w)"
  by (simp add: setContents_eq setContentsOpts_def isAppendNotification_def)

text \<open>
  Claim C3.  \<open>appendContents\<close> for a run that is not the active one changes nothing:
  not \<open>appendedContents\<close>, not the calls made on the tree builder, not what the host
  received.
\<close>

theorem appendContents_stale_run_ignored:
  "runId (opts w) \<noteq> Some (ac_runId msg) \<Longrightarrow> appendContents msg w = w"
  by (simp add: appendContents_def)

text \<open>
  The theorem at a concrete state: run \<open>A\<close> was superseded by run \<open>B\<close>, and a chunk for
  \<open>A\<close> arrives.
\<close>

theorem appendContents_stale_run_ignored_witness:
  "runId (opts (run [SetContents runA, SetContents runB] (initialWorld exampleOpts)))
     \<noteq> Some (ac_runId chunkForA) \<and>
   appendContents chunkForA (run [SetContents runA, SetContents runB] (initialWorld exampleOpts)) =
     run [SetContents runA, SetContents runB] (initialWorld exampleOpts)"
  using appendContents_stale_run_ignored
          [of "run [SetContents runA, SetContents runB] (initialWorld exampleOpts)" chunkForA]
  by (simp add: setContents_eq setContentsOpts_def runB_def chunkForA_def)

text \<open>
  Claim C10.  \<open>appendContents\<close> for the active run, before any tree builder exists:
  the chunk is appended to \<open>appendedContents\<close> and nothing else happens.
\<close>

theorem appendContents_without_treeBuilder:
  "runId (opts w) = Some (ac_runId msg) \<Longrightarrow> treeBuilder w = None \<Longrightarrow>
   appendContents msg w =
     w\<lparr>opts := (opts w)\<lparr>appendedContents := appendedContents (opts w) @ [ac_appendContents msg]\<rparr>\<rparr>"
  by (simp add: appendContents_def)

text \<open>
  The theorem at a concrete state: the options name run \<open>A\<close>, and \<open>setContents\<close> was
  never called.
\<close>

theorem appendContents_without_treeBuilder_witness:
  "runId (opts (initialWorld (exampleOpts\<lparr>runId := Some ''A''\<rparr>))) = Some (ac_runId chunkForA) \<and>
   treeBuilder (initialWorld (exampleOpts\<lparr>runId := Some ''A''\<rparr>)) = None \<and>
   appendedContents (opts (appendContents chunkForA (initialWorld (exampleOpts\<lparr>runId := Some ''A''\<rparr>))))
     = [''late''] \<and>
   effects (appendContents chunkForA (initialWorld (exampleOpts\<lparr>runId := Some ''A''\<rparr>))) = []"
  using appendContents_without_treeBuilder
          [of "initialWorld (exampleOpts\<lparr>runId := Some ''A''\<rparr>)" chunkForA]
  by (simp add: initialWorld_def exampleOpts_def chunkForA_def)

text \<open>
  \<open>setContents\<close> does not replace every field of the options: \<open>showTime\<close> and
  \<open>showExpand\<close>, switched on while run \<open>A\<close> was active, are still on after
  \<open>setContents\<close> for run \<open>B\<close>, whereas a view that starts with run \<open>B\<close> has them off.
\<close>

theorem setContents_keeps_view_settings:
  "showTime (opts (run [SetContents runA, SetShowTime True, SetShowExpand True, SetContents runB]
                     (initialWorld exampleOpts))) = True \<and>
   showExpand (opts (run [SetContents runA, SetShowTime True, SetShowExpand True, SetContents runB]
                       (initialWorld exampleOpts))) = True \<and>
   showTime (opts (run [SetContents runB] (initialWorld exampleOpts))) = False \<and>
   showExpand (opts (run [SetContents runB] (initialWorld exampleOpts))) = False"
  by (simp add: setContents_eq setContentsOpts_def setShowTime_def setShowExpand_def
        initialWorld_def exampleOpts_def)

text \<open>
  Claim C4, as amended.  After \<open>setContents(msg)\<close> the fields \<open>runId\<close>,
  \<open>initialContents\<close> and \<open>allRunIdsToLabel\<close> are those of \<open>msg\<close> and \<open>appendedContents\<close> is
  empty; the cross-reference callback is this module's \<open>onClickReference\<close> inside a
  host and is left as it was otherwise; \<open>showTime\<close> and \<open>showExpand\<close> keep their values.
\<close>

theorem setContents_options:
  "runId (opts (setContents msg w)) = sc_runId msg \<and>
   initialContents (opts (setContents msg w)) = sc_initialContents msg \<and>
   allRunIdsToLabel (opts (setContents msg w)) = sc_allRunIdsToLabel msg \<and>
   appendedContents (opts (setContents msg w)) = [] \<and>
   onClickReferenceCb (opts (setContents msg w)) =
     (if isInVSCode w then Some OnClickReference else onClickReferenceCb (opts w)) \<and>
   showTime (opts (setContents msg w)) = showTime (opts w) \<and>
   showExpand (opts (setContents msg w)) = showExpand (opts w)"
  by (simp add: setContents_eq setContentsOpts_def)

text \<open>
  Claim C5.  With a host whose stored state lacks all three fields, \<open>getState()\<close> fills
  in \<open>filterLevel\<close> and \<open>runIdToTreeState\<close>, and returns \<open>runIdLRU\<close> still undefined: the
  test \<open>!ret.runIdLRU === undefined\<close> never holds.
\<close>

theorem getState_leaves_runIdLRU_undefined:
  "getState (setVSCodeAPI legacyHost (initialWorld exampleOpts)) =
     \<lparr> st_filterLevel = Some ''PASS'', st_runIdToTreeState = Some [], st_runIdLRU = None \<rparr>"
  by (simp add: getState_def setVSCodeAPI_def legacyHost_def backfill_def js_not_def Let_def)

text \<open>
  Claim C8.  \<open>getState()\<close> right after \<open>setState(s)\<close> returns an object with the fields of
  \<open>s\<close>, with a host (which stores \<open>s\<close> and hands it back) and without one.
\<close>

theorem setState_getState_roundtrip:
  "getState (setState s w) = asStored s"
  by (cases "vscode w")
     (simp_all add: getState_def setState_def backfill_def js_not_def asStored_def Let_def)

section \<open>The LRU bound\<close>

lemma touchRun_props:
  "touchRun rid lru \<noteq> []" "last (touchRun rid lru) = rid"
  "set (touchRun rid lru) = insert rid (set lru)"
  "distinct lru \<Longrightarrow> distinct (touchRun rid lru)"
  by (auto simp: touchRun_def)

lemma evictRuns_suffix: "\<exists>n. evictRuns cap a xs = drop n xs"
proof (induction xs)
  case Nil
  show ?case by simp
next
  case (Cons r rs)
  show ?case
  proof (cases "cap < length (r # rs) \<and> r \<noteq> a")
    case True
    from Cons.IH obtain n where "evictRuns cap a rs = drop n rs" ..
    with True have "evictRuns cap a (r # rs) = drop (Suc n) (r # rs)" by simp
    then show ?thesis ..
  next
    case False
    then have "evictRuns cap a (r # rs) = drop 0 (r # rs)" by auto
    then show ?thesis ..
  qed
qed

lemma evictRuns_keeps_active:
  "xs \<noteq> [] \<Longrightarrow> last xs = a \<Longrightarrow> evictRuns cap a xs \<noteq> [] \<and> last (evictRuns cap a xs) = a"
proof (induction xs)
  case Nil
  then show ?case by simp
next
  case (Cons r rs)
  show ?case
  proof (cases "cap < length (r # rs) \<and> r \<noteq> a")
    case True
    with Cons.prems have "rs \<noteq> []" "last rs = a" by (auto split: if_splits)
    with Cons.IH True show ?thesis by simp
  next
    case False
    with Cons.prems show ?thesis by auto
  qed
qed

lemma evictRuns_drop:
  "0 < cap \<Longrightarrow> xs \<noteq> [] \<Longrightarrow> last xs = a \<Longrightarrow> distinct xs \<Longrightarrow>
   evictRuns cap a xs = drop (length xs - cap) xs"
proof (induction xs)
  case Nil
  then show ?case by simp
next
  case (Cons r rs)
  show ?case
  proof (cases "cap < length (r # rs)")
    case False
    then show ?thesis by simp
  next
    case long: True
    show ?thesis
    proof (cases "rs = []")
      case True
      with long Cons.prems(1) show ?thesis by simp
    next
      case False
      with Cons.prems have l: "last rs = a" and d: "distinct rs" and "r \<notin> set rs" by auto
      with False have ne: "r \<noteq> a" using last_in_set [of rs] by auto
      from long have "length (r # rs) - cap = Suc (length rs - cap)" by simp
      with long ne Cons.IH [OF Cons.prems(1) False l d] show ?thesis by simp
    qed
  qed
qed

lemma keys_filter: "set (map fst (filter (\<lambda>e. fst e \<in> A) xs)) = A \<inter> set (map fst xs)"
  by (induction xs) auto

lemma activateRun_lru:
  "runIdLRU (activateRun cap rid ts st) = evictRuns cap rid (touchRun rid (runIdLRU st))"
  by (simp add: activateRun_def Let_def)

lemma activateRun_invariant:
  assumes "lruInvariant st"
  shows "lruInvariant (activateRun cap rid ts st)"
proof -
  let ?touched = "touchRun rid (runIdLRU st)"
  let ?lru = "evictRuns cap rid ?touched"
  let ?states = "if rid \<in> set (map fst (runIdToTreeState st))
                 then runIdToTreeState st else runIdToTreeState st @ [(rid, ts)]"
  from assms have inv: "distinct (runIdLRU st)" "distinct (map fst (runIdToTreeState st))"
    "set (runIdLRU st) = set (map fst (runIdToTreeState st))"
    by (simp_all add: lruInvariant_def)
  obtain n where n: "?lru = drop n ?touched" using evictRuns_suffix by blast
  have "distinct ?touched" using inv(1) by (rule touchRun_props)
  then have d: "distinct ?lru" unfolding n by simp
  have sub: "set ?lru \<subseteq> set ?touched" unfolding n by (rule set_drop_subset)
  have keys: "set (map fst ?states) = set ?touched"
    using inv(3) by (auto simp: touchRun_props)
  have dk: "distinct (map fst ?states)" using inv(2) by auto
  have "set (map fst (filter (\<lambda>e. fst e \<in> set ?lru) ?states)) = set ?lru \<inter> set (map fst ?states)"
    by (rule keys_filter)
  with keys sub have k: "set (map fst (filter (\<lambda>e. fst e \<in> set ?lru) ?states)) = set ?lru"
    by auto
  have dk': "distinct (map fst (filter (\<lambda>e. fst e \<in> set ?lru) ?states))"
    using dk by (rule distinct_map_filter)
  have st': "runIdLRU (activateRun cap rid ts st) = ?lru"
    "runIdToTreeState (activateRun cap rid ts st) = filter (\<lambda>e. fst e \<in> set ?lru) ?states"
    by (simp_all add: activateRun_def Let_def)
  show ?thesis unfolding lruInvariant_def st' using d dk' k by simp
qed

lemma activateAll_invariant:
  "lruInvariant st \<Longrightarrow> lruInvariant (activateAll cap acts st)"
  by (induction acts arbitrary: st) (simp_all add: activateRun_invariant)

lemma activateAll_snoc:
  "activateAll cap (acts @ [a]) st = activateRun cap (fst a) (snd a) (activateAll cap acts st)"
  by (induction acts arbitrary: st) simp_all

lemma activateAll_lru:
  assumes "0 < cap" and "distinct (map fst acts)" and "runIdLRU st = []"
  shows "runIdLRU (activateAll cap acts st) = drop (length acts - cap) (map fst acts)"
  using assms(2)
proof (induction acts rule: rev_induct)
  case Nil
  with assms(3) show ?case by simp
next
  case (snoc a acts)
  let ?old = "drop (length acts - cap) (map fst acts)"
  from snoc.prems have d: "distinct (map fst acts)" and new: "fst a \<notin> set (map fst acts)"
    by auto
  from snoc.IH [OF d] have old: "runIdLRU (activateAll cap acts st) = ?old" .
  have "set ?old \<subseteq> set (map fst acts)" by (rule set_drop_subset)
  with new have "fst a \<notin> set ?old" by blast
  then have touched: "touchRun (fst a) ?old = ?old @ [fst a]"
    by (auto simp: touchRun_def filter_id_conv)
  have dist: "distinct (?old @ [fst a])"
    using d \<open>fst a \<notin> set ?old\<close> by (simp add: distinct_drop)
  have "runIdLRU (activateAll cap (acts @ [a]) st) = evictRuns cap (fst a) (?old @ [fst a])"
    by (simp add: activateAll_snoc activateRun_lru old touched)
  also have "\<dots> = drop (length (?old @ [fst a]) - cap) (?old @ [fst a])"
    using assms(1) dist by (intro evictRuns_drop) simp_all
  also have "\<dots> = drop (length (acts @ [a]) - cap) (map fst (acts @ [a]))"
    using assms(1) by (cases "length acts < cap") (simp_all add: Suc_diff_le)
  finally show ?case .
qed

text \<open>
  Claim C6.  Under a cap of at least one run, activating a run keeps the invariant, puts
  the run at the most-recently-used end of \<open>runIdLRU\<close>, keeps it in both structures, and
  evicts exactly the surplus over the cap from the least-recently-used end.  Any
  sequence of activations from the initial \<open>_globalState\<close> keeps the invariant, and
  activating distinct runs in order leaves the last \<open>cap\<close> of them.
\<close>

theorem lru_discipline:
  assumes inv: "lruInvariant st" and cap: "0 < cap"
  shows "lruInvariant (activateRun cap rid ts st) \<and>
         runIdLRU (activateRun cap rid ts st) =
           drop (length (touchRun rid (runIdLRU st)) - cap) (touchRun rid (runIdLRU st)) \<and>
         last (runIdLRU (activateRun cap rid ts st)) = rid \<and>
         rid \<in> set (runIdLRU (activateRun cap rid ts st)) \<and>
         rid \<in> set (map fst (runIdToTreeState (activateRun cap rid ts st))) \<and>
         length (runIdLRU (activateRun cap rid ts st)) \<le> cap \<and>
         lruInvariant (activateAll cap acts (globalState (initialWorld o0))) \<and>
         (distinct (map fst acts) \<longrightarrow>
            runIdLRU (activateAll cap acts (globalState (initialWorld o0))) =
              drop (length acts - cap) (map fst acts))"
proof -
  let ?st' = "activateRun cap rid ts st"
  let ?touched = "touchRun rid (runIdLRU st)"
  have inv': "lruInvariant ?st'" using inv by (rule activateRun_invariant)
  from inv have "distinct ?touched" by (simp add: lruInvariant_def touchRun_props)
  with cap have lru: "runIdLRU ?st' = drop (length ?touched - cap) ?touched"
    unfolding activateRun_lru by (intro evictRuns_drop) (simp_all add: touchRun_props)
  have keep: "runIdLRU ?st' \<noteq> [] \<and> last (runIdLRU ?st') = rid"
    unfolding activateRun_lru by (rule evictRuns_keeps_active) (simp_all add: touchRun_props)
  then have mem: "rid \<in> set (runIdLRU ?st')"
    using last_in_set [of "runIdLRU ?st'"] by simp
  with inv' have key: "rid \<in> set (map fst (runIdToTreeState ?st'))"
    by (simp add: lruInvariant_def)
  have len: "length (runIdLRU ?st') \<le> cap" unfolding lru by simp
  have start: "lruInvariant (globalState (initialWorld o0))"
    by (simp add: lruInvariant_def initialWorld_def)
  then have all: "lruInvariant (activateAll cap acts (globalState (initialWorld o0)))"
    by (rule activateAll_invariant)
  have order: "runIdLRU (activateAll cap acts (globalState (initialWorld o0))) =
                 drop (length acts - cap) (map fst acts)" if "distinct (map fst acts)"
    using cap that by (rule activateAll_lru) (simp add: initialWorld_def)
  show ?thesis
  proof (intro conjI impI)
    show "lruInvariant ?st'" by (rule inv')
    show "runIdLRU ?st' = drop (length ?touched - cap) ?touched" by (rule lru)
    show "last (runIdLRU ?st') = rid" using keep by (rule conjunct2)
    show "rid \<in> set (runIdLRU ?st')" by (rule mem)
    show "rid \<in> set (map fst (runIdToTreeState ?st'))" by (rule key)
    show "length (runIdLRU ?st') \<le> cap" by (rule len)
    show "lruInvariant (activateAll cap acts (globalState (initialWorld o0)))" by (rule all)
    show "runIdLRU (activateAll cap acts (globalState (initialWorld o0))) =
            drop (length acts - cap) (map fst acts)" if "distinct (map fst acts)"
      using that by (rule order)
  qed
qed

text \<open>
  The theorem at a cap of two: after the runs \<open>A\<close>, \<open>B\<close>, \<open>C\<close> the store holds \<open>B\<close> and \<open>C\<close>;
  activating \<open>B\<close> again in the initial state leaves \<open>B\<close> alone.
\<close>

theorem lru_discipline_witness:
  "lruInvariant (globalState (initialWorld exampleOpts)) \<and> (0::nat) < 2 \<and>
   distinct (map fst [(''A'', ''ta''), (''B'', ''tb''), (''C'', ''tc'')]) \<and>
   runIdLRU (activateAll 2 [(''A'', ''ta''), (''B'', ''tb''), (''C'', ''tc'')]
               (globalState (initialWorld exampleOpts))) = [''B'', ''C''] \<and>
   runIdLRU (activateRun 2 ''B'' ''tb'' (globalState (initialWorld exampleOpts))) = [''B'']"
  using lru_discipline
          [of "globalState (initialWorld exampleOpts)" 2 "''B''" "''tb''"
              "[(''A'', ''ta''), (''B'', ''tb''), (''C'', ''tc'')]" exampleOpts]
  by (simp add: lruInvariant_def initialWorld_def touchRun_def)

end
